theory Spec2Isabelle
  imports Main
begin

section \<open>Wire codec\<close>

text \<open>
  \<^verbatim>\<open>src/core/base.ts\<close> imports the class \<^verbatim>\<open>Protocol\<close> from \<^verbatim>\<open>./protocol\<close> and calls its
  methods \<^verbatim>\<open>encode\<close>, \<^verbatim>\<open>write\<close> and \<^verbatim>\<open>parse\<close>. That file is not among the sources, so
  the codec of this section follows the specification (its sections 3, 4.1, 4.2 and 6).
  Strings are byte strings: a \<^typ>\<open>char\<close> is one byte and \<^const>\<open>length\<close> counts bytes.
\<close>

text \<open>Modelled from the spec: the reply variants of section 3 (WireMessage), the result
  type of the absent \<^verbatim>\<open>Protocol.parse\<close>. A null bulk string and a null array are \<open>None\<close>.\<close>

datatype wire_message =
    Simple string
  | Error string
  | Integer int
  | BulkString "string option"
  | Array "wire_message list option"

abbreviation CR :: char where "CR \<equiv> CHR 0x0D"
abbreviation LF :: char where "LF \<equiv> CHR 0x0A"
abbreviation CRLF :: string where "CRLF \<equiv> [CR, LF]"

subsection \<open>Decimal text\<close>

text \<open>Modelled from the spec: "integers converted to their decimal text form" (section 4.1);
  the character of a decimal digit, for the absent encoder's number formatting.\<close>

definition digit_char :: "nat \<Rightarrow> char" where
  "digit_char d = char_of (48 + d)"

text \<open>Modelled from the spec: the decimal text of a natural number, most significant digit
  first, for the argument count and lengths the absent encoder writes.\<close>

fun show_nat :: "nat \<Rightarrow> string" where
  "show_nat n = (if n < 10 then [digit_char n] else show_nat (n div 10) @ [digit_char (n mod 10)])"

declare show_nat.simps [simp del]

text \<open>Modelled from the spec: the decimal text of an integer argument, with a minus sign when
  negative, as the absent encoder converts it.\<close>

definition show_int :: "int \<Rightarrow> string" where
  "show_int i = (if i < 0 then CHR ''-'' # show_nat (nat (- i)) else show_nat (nat i))"

text \<open>Modelled from the spec: "parse the decimal (with optional sign)" and "read a decimal
  length" (section 4.2); which bytes are decimal digits, for the absent decoder's number
  parsing. A field that is not an optional sign followed by at least one digit is unparsable.\<close>

definition is_digit :: "char \<Rightarrow> bool" where
  "is_digit c = (48 \<le> (of_char c :: nat) \<and> (of_char c :: nat) \<le> 57)"

text \<open>Modelled from the spec: the value of a decimal digit, for the absent decoder.\<close>

definition digit_val :: "char \<Rightarrow> nat" where
  "digit_val c = of_char c - 48"

text \<open>Modelled from the spec: an unsigned decimal field of the absent decoder, \<open>None\<close> when
  it is empty or holds a character that is not a digit.\<close>

definition parse_nat :: "string \<Rightarrow> nat option" where
  "parse_nat s =
     (if s \<noteq> [] \<and> list_all is_digit s
      then Some (foldl (\<lambda>a c. 10 * a + digit_val c) 0 s) else None)"

text \<open>Modelled from the spec: a decimal field with an optional sign, for the integers,
  lengths and counts the absent decoder reads.\<close>

definition parse_int :: "string \<Rightarrow> int option" where
  "parse_int s =
     (case s of
        [] \<Rightarrow> None
      | c # ds \<Rightarrow>
          if c = CHR ''-'' then map_option (\<lambda>n. - int n) (parse_nat ds)
          else if c = CHR ''+'' then map_option int (parse_nat ds)
          else map_option int (parse_nat s))"

subsection \<open>Encoder\<close>

text \<open>A command argument as \<^verbatim>\<open>command(...parameters: Array<string | number>)\<close> receives it.
  The declared type admits strings and numbers; \<open>POther\<close> stands for a value of any other
  type, which an untyped caller can still pass and which the specification calls a malformed
  input type.\<close>

datatype param = PStr string | PNum int | POther

text \<open>Exceptions and error objects of the program.\<close>

datatype js_error =
    JsError string
  | JsTypeError string
  | UsageError
  | ProtocolViolation string

text \<open>Modelled from the spec: the input check of the absent \<^verbatim>\<open>Protocol.encode\<close> (section 4.1).
  A malformed input type is rejected at the boundary, before encoding.\<close>

fun well_typed :: "param \<Rightarrow> bool" where
  "well_typed (PStr s) = True"
| "well_typed (PNum n) = True"
| "well_typed POther = False"

text \<open>Modelled from the spec: the bytes the absent encoder sends for an argument, a string as
  it is and an integer as its decimal text.\<close>

fun param_text :: "param \<Rightarrow> string" where
  "param_text (PStr s) = s"
| "param_text (PNum n) = show_int n"
| "param_text POther = []"

text \<open>Modelled from the spec: one length-prefixed bulk string of a request (section 6), as
  the absent encoder writes it.\<close>

definition bulk :: "string \<Rightarrow> string" where
  "bulk s = CHR ''$'' # show_nat (length s) @ CRLF @ s @ CRLF"

text \<open>Modelled from the spec: the loop of the absent encoder over the arguments, appending
  one bulk string to the request for each.\<close>

fun append_bulks :: "string \<Rightarrow> param list \<Rightarrow> string" where
  "append_bulks request [] = request"
| "append_bulks request (p # ps) = append_bulks (request @ bulk (param_text p)) ps"

text \<open>Modelled from the spec: \<^verbatim>\<open>Protocol.encode\<close>, absent from the sources. A usage error for
  a malformed argument, otherwise the array header followed by the bulk strings.\<close>

definition encode :: "param list \<Rightarrow> js_error + string" where
  "encode parameters =
     (if list_all well_typed parameters
      then Inr (append_bulks (CHR ''*'' # show_nat (length parameters) @ CRLF) parameters)
      else Inl UsageError)"

subsection \<open>Serialised replies\<close>

text \<open>Modelled from the spec: the reply wire format of section 6, the bytes a server sends
  for one reply. The server is not part of the repository.\<close>

fun serialize :: "wire_message \<Rightarrow> string" where
  "serialize (Simple s) = CHR ''+'' # s @ CRLF"
| "serialize (Error s) = CHR ''-'' # s @ CRLF"
| "serialize (Integer i) = CHR '':'' # show_int i @ CRLF"
| "serialize (BulkString None) = ''$-1'' @ CRLF"
| "serialize (BulkString (Some b)) = CHR ''$'' # show_nat (length b) @ CRLF @ b @ CRLF"
| "serialize (Array None) = ''*-1'' @ CRLF"
| "serialize (Array (Some ms)) = CHR ''*'' # show_nat (length ms) @ CRLF @ concat (map serialize ms)"

abbreviation stream :: "wire_message list \<Rightarrow> string" where
  "stream ms \<equiv> concat (map serialize ms)"

text \<open>Modelled from the spec: which replies have an encoding that can be decoded again. A
  status line is ended by the first frame terminator, so its text holds no carriage return;
  an integer is a signed 64-bit value (section 3).\<close>

fun well_formed :: "wire_message \<Rightarrow> bool" where
  "well_formed (Simple s) = (CR \<notin> set s)"
| "well_formed (Error s) = (CR \<notin> set s)"
| "well_formed (Integer i) = (- (2 ^ 63) \<le> i \<and> i < 2 ^ 63)"
| "well_formed (BulkString b) = True"
| "well_formed (Array None) = True"
| "well_formed (Array (Some ms)) = list_all well_formed ms"

subsection \<open>Decoder\<close>

text \<open>Modelled from the spec: "scan forward for a frame terminator" (section 4.2). The text
  before the first CRLF of the buffer, \<open>None\<close> when the buffer holds no CRLF yet.\<close>

fun read_line :: "string \<Rightarrow> string option" where
  "read_line (c # d # cs) =
     (if c = CR \<and> d = LF then Some []
      else map_option ((#) c) (read_line (d # cs)))"
| "read_line _ = None"

text \<open>Modelled from the spec: the outcome of decoding at the start of a buffer (section 4.2):
  a value with the number of bytes it occupies, not enough bytes yet, or a protocol
  violation.\<close>

datatype 'a decoded = Complete 'a nat | NeedMore | Violation string

text \<open>Modelled from the spec: the decoding algorithm of section 4.2, the core of the absent
  \<^verbatim>\<open>Protocol.parse\<close>. One type byte selects the variant; a status line runs to the frame
  terminator; an integer is the decimal before the terminator; a bulk string is a decimal
  length, that many bytes and a terminator, a negative length being the null bulk string; an
  array is a decimal count and that many nested messages, a negative count being the null
  array. When the buffer ends before the structure does the result is \<open>NeedMore\<close> and nothing
  is consumed. An unknown type byte and a non-numeric field are violations.\<close>

fun parse_message :: "string \<Rightarrow> wire_message decoded"
  and parse_elements :: "nat \<Rightarrow> string \<Rightarrow> wire_message list decoded" where
  "parse_message [] = NeedMore"
| "parse_message (t # body) =
     (if t = CHR ''+'' then
        (case read_line body of
           None \<Rightarrow> NeedMore
         | Some l \<Rightarrow> Complete (Simple l) (length l + 3))
      else if t = CHR ''-'' then
        (case read_line body of
           None \<Rightarrow> NeedMore
         | Some l \<Rightarrow> Complete (Error l) (length l + 3))
      else if t = CHR '':'' then
        (case read_line body of
           None \<Rightarrow> NeedMore
         | Some l \<Rightarrow>
             (case parse_int l of
                None \<Rightarrow> Violation ''bad integer''
              | Some i \<Rightarrow> Complete (Integer i) (length l + 3)))
      else if t = CHR ''$'' then
        (case read_line body of
           None \<Rightarrow> NeedMore
         | Some l \<Rightarrow>
             (case parse_int l of
                None \<Rightarrow> Violation ''bad length''
              | Some n \<Rightarrow>
                  if n < 0 then Complete (BulkString None) (length l + 3)
                  else if length body < length l + 2 + nat n + 2 then NeedMore
                  else Complete (BulkString (Some (take (nat n) (drop (length l + 2) body))))
                         (length l + 3 + nat n + 2)))
      else if t = CHR ''*'' then
        (case read_line body of
           None \<Rightarrow> NeedMore
         | Some l \<Rightarrow>
             (case parse_int l of
                None \<Rightarrow> Violation ''bad count''
              | Some n \<Rightarrow>
                  if n < 0 then Complete (Array None) (length l + 3)
                  else
                    (case parse_elements (nat n) (drop (length l + 2) body) of
                       Complete ms k \<Rightarrow> Complete (Array (Some ms)) (length l + 3 + k)
                     | NeedMore \<Rightarrow> NeedMore
                     | Violation e \<Rightarrow> Violation e)))
      else Violation ''bad type byte'')"
| "parse_elements 0 buf = Complete [] 0"
| "parse_elements (Suc n) buf =
     (case parse_message buf of
        Complete m k \<Rightarrow>
          (case parse_elements n (drop k buf) of
             Complete ms k' \<Rightarrow> Complete (m # ms) (k + k')
           | NeedMore \<Rightarrow> NeedMore
           | Violation e \<Rightarrow> Violation e)
      | NeedMore \<Rightarrow> NeedMore
      | Violation e \<Rightarrow> Violation e)"

text \<open>Modelled from the spec: "extract as many complete WireMessage values as the current
  buffer permits, leaving any incomplete trailing message buffered" (section 4.2). The result
  is the messages in order and the unconsumed rest of the buffer, or the violation.\<close>

function parse_all :: "string \<Rightarrow> js_error + (wire_message list \<times> string)" where
  "parse_all buf =
     (case parse_message buf of
        NeedMore \<Rightarrow> Inr ([], buf)
      | Violation e \<Rightarrow> Inl (ProtocolViolation e)
      | Complete m k \<Rightarrow>
          (case parse_all (drop k buf) of
             Inl e \<Rightarrow> Inl e
           | Inr (ms, rest) \<Rightarrow> Inr (m # ms, rest)))"
  by pat_completeness auto
termination
proof (relation "measure length")
  show "wf (measure length)" by simp
next
  fix buf :: string and m :: wire_message and k :: nat
  assume c: "parse_message buf = Complete m k"
  then obtain t body where buf: "buf = t # body"
    by (cases buf) auto
  have "0 < k"
    using c unfolding buf
    by (auto split: if_splits option.splits decoded.splits)
  then show "(drop k buf, buf) \<in> measure length"
    by (simp add: buf)
qed

declare parse_all.simps [simp del]

text \<open>Modelled from the spec: the decoder state of section 3 (the unconsumed byte suffix) and
  the two operations of section 4.2 of the absent class \<^verbatim>\<open>Protocol\<close>: \<^verbatim>\<open>write\<close> appends the
  bytes and parses nothing, \<^verbatim>\<open>parse\<close> returns the complete messages and keeps the rest.\<close>

record protocol =
  buffer :: string

text \<open>Modelled from the spec: \<^verbatim>\<open>new Protocol()\<close>, a decoder with an empty buffer.\<close>

definition new_protocol :: protocol where
  "new_protocol = \<lparr>buffer = []\<rparr>"

text \<open>Modelled from the spec: \<^verbatim>\<open>Protocol.write\<close>, absent from the sources. It appends the bytes
  to the buffer.\<close>

definition protocol_write :: "protocol \<Rightarrow> string \<Rightarrow> protocol" where
  "protocol_write pr data = pr\<lparr>buffer := buffer pr @ data\<rparr>"

text \<open>Modelled from the spec: \<^verbatim>\<open>Protocol.parse\<close>, absent from the sources. It returns the
  complete messages of the buffer and keeps the rest, or fails with the violation.\<close>

definition protocol_parse :: "protocol \<Rightarrow> js_error + (wire_message list \<times> protocol)" where
  "protocol_parse pr =
     (case parse_all (buffer pr) of
        Inl e \<Rightarrow> Inl e
      | Inr (ms, rest) \<Rightarrow> Inr (ms, pr\<lparr>buffer := rest\<rparr>))"

section \<open>The connection (class Base)\<close>

text \<open>
  The class \<^verbatim>\<open>Base\<close> of \<^verbatim>\<open>src/core/base.ts\<close>. Its fields are the fields of the record
  \<open>base\<close>. The objects it only talks to are made explicit: the socket is a record of what
  was asked of it, every promise made by \<^verbatim>\<open>command\<close> has a cell in a promise store, and
  the effects on the outside world are appended to a trace in the order in which the code
  performs them.
\<close>

subsection \<open>Values, promises, listeners\<close>

text \<open>What a promise of \<^verbatim>\<open>command\<close> can be settled with (\<^verbatim>\<open>res: any\<close>): a decoded reply or
  an error object.\<close>

datatype js_value = Reply wire_message | Exn js_error

text \<open>\<^verbatim>\<open>x instanceof Error\<close>. What object the absent parser returns for an error reply is not
  in the sources; \<^verbatim>\<open>auth\<close> tests the awaited reply with \<^verbatim>\<open>instanceof Error\<close>, so an \<open>Error\<close>
  reply is taken to be an error object, and no other reply is.\<close>

fun instanceof_Error :: "js_value \<Rightarrow> bool" where
  "instanceof_Error (Exn e) = True"
| "instanceof_Error (Reply (Error text)) = True"
| "instanceof_Error (Reply m) = False"

datatype promise_state = Pending | Fulfilled js_value | Rejected js_value

text \<open>\<^verbatim>\<open>type callback = (err: boolean, res: any) => void\<close>. The only callbacks the class creates
  are the closures of \<^verbatim>\<open>command\<close>, \<^verbatim>\<open>(err, res) => { err ? reject(res) : resolve(res) }\<close>, each
  bound to the promise whose executor made it; \<open>Callback p\<close> is the one of promise \<open>p\<close>.\<close>

datatype callback = Callback nat

text \<open>A listener passed to \<^verbatim>\<open>on\<close> is a function of the caller: only its identity is known.\<close>

type_synonym listener = nat

datatype listener_arg = ArgBool bool | ArgValue js_value

datatype effect =
    QueuePush nat
  | SocketWrite string
  | SocketEnd
  | CallbackCall nat bool js_value
  | ListenerCall listener "listener_arg list"
  | ConsoleLog js_value

text \<open>A method either returns or throws; a throw does not undo the assignments made before
  it, so both carry the state.\<close>

datatype 'a result = Returned 'a | Threw js_error 'a

subsection \<open>State\<close>

record socket =
  sock_host :: string
  sock_port :: int
  sock_tls :: "(string \<times> string) option"
  sock_timeout :: "int option"
  written :: "string list"
  ended :: bool

record options =
  opt_host :: "string option"
  opt_port :: "int option"
  opt_username :: "string option"
  opt_password :: "string option"
  opt_timeout :: "int option"
  opt_tls :: "(string \<times> string) option"

record interface_auth =
  username :: "string option"
  password :: "string option"

record base =
  base_id :: string
  socket :: socket
  protocol :: protocol
  callbacks :: "callback list"
  handle_connect :: "listener option"
  handle_timeout :: "listener option"
  handle_error :: "listener option"
  handle_close :: "listener option"

text \<open>The connection together with the promise store, the trace, and the promise the
  suspended \<^verbatim>\<open>auth\<close> is awaiting, if any.\<close>

record machine = base +
  promises :: "promise_state list"
  trace :: "effect list"
  auth_await :: "nat option"

subsection \<open>Promises and the socket\<close>

text \<open>\<^verbatim>\<open>resolve\<close> and \<^verbatim>\<open>reject\<close> of a promise: the first call settles it, later calls do
  nothing.\<close>

definition resolve :: "nat \<Rightarrow> js_value \<Rightarrow> machine \<Rightarrow> machine" where
  "resolve p v s =
     (if p < length (promises s) \<and> promises s ! p = Pending
      then s\<lparr>promises := (promises s)[p := Fulfilled v]\<rparr> else s)"

definition reject :: "nat \<Rightarrow> js_value \<Rightarrow> machine \<Rightarrow> machine" where
  "reject p v s =
     (if p < length (promises s) \<and> promises s ! p = Pending
      then s\<lparr>promises := (promises s)[p := Rejected v]\<rparr> else s)"

fun call_callback :: "callback \<Rightarrow> bool \<Rightarrow> js_value \<Rightarrow> machine \<Rightarrow> machine" where
  "call_callback (Callback p) err res s =
     (let s' = s\<lparr>trace := trace s @ [CallbackCall p err res]\<rparr>
      in if err then reject p res s' else resolve p res s')"

definition socket_write :: "string \<Rightarrow> machine \<Rightarrow> machine" where
  "socket_write bytes s =
     s\<lparr>socket := (socket s)\<lparr>written := written (socket s) @ [bytes]\<rparr>,
       trace := trace s @ [SocketWrite bytes]\<rparr>"

definition socket_end :: "machine \<Rightarrow> machine" where
  "socket_end s = s\<lparr>socket := (socket s)\<lparr>ended := True\<rparr>, trace := trace s @ [SocketEnd]\<rparr>"

definition call_listener :: "listener \<Rightarrow> listener_arg list \<Rightarrow> machine \<Rightarrow> machine" where
  "call_listener l args s = s\<lparr>trace := trace s @ [ListenerCall l args]\<rparr>"

definition console_log :: "js_value \<Rightarrow> machine \<Rightarrow> machine" where
  "console_log v s = s\<lparr>trace := trace s @ [ConsoleLog v]\<rparr>"

subsection \<open>Methods\<close>

text \<open>\<^verbatim>\<open>command\<close> (lines 80-87). The executor of the new promise runs at once: it pushes the
  callback, then evaluates \<^verbatim>\<open>this.protocol.encode(...parameters)\<close>, then writes the result to
  the socket. An exception of the executor rejects the promise. The method returns the
  promise.\<close>

definition command :: "param list \<Rightarrow> machine \<Rightarrow> nat \<times> machine" where
  "command parameters s =
     (let p = length (promises s);
          s1 = s\<lparr>promises := promises s @ [Pending]\<rparr>;
          s2 = s1\<lparr>callbacks := callbacks s1 @ [Callback p], trace := trace s1 @ [QueuePush p]\<rparr>
      in case encode parameters of
           Inl e \<Rightarrow> (p, reject p (Exn e) s2)
         | Inr bytes \<Rightarrow> (p, socket_write bytes s2))"

text \<open>\<^verbatim>\<open>close\<close> (lines 88-90).\<close>

definition close :: "machine \<Rightarrow> machine" where
  "close s = socket_end s"

text \<open>\<^verbatim>\<open>on\<close> (lines 94-111).\<close>

definition on :: "string \<Rightarrow> listener \<Rightarrow> machine \<Rightarrow> machine result" where
  "on event l s =
     (if event = ''connect'' then Returned (s\<lparr>handle_connect := Some l\<rparr>)
      else if event = ''timeout'' then Returned (s\<lparr>handle_timeout := Some l\<rparr>)
      else if event = ''error'' then Returned (s\<lparr>handle_error := Some l\<rparr>)
      else if event = ''close'' then Returned (s\<lparr>handle_close := Some l\<rparr>)
      else Threw (JsError ''event not found'') s)"

text \<open>The socket's event handlers that \<^verbatim>\<open>init\<close> registers (lines 135-170).\<close>

definition socket_on_connect :: "machine \<Rightarrow> machine" where
  "socket_on_connect s =
     (case handle_connect s of Some l \<Rightarrow> call_listener l [] s | None \<Rightarrow> s)"

definition socket_on_timeout :: "machine \<Rightarrow> machine" where
  "socket_on_timeout s =
     (case handle_timeout s of Some l \<Rightarrow> call_listener l [] s | None \<Rightarrow> close s)"

definition socket_on_error :: "js_value \<Rightarrow> machine \<Rightarrow> machine" where
  "socket_on_error err s =
     (case handle_error s of
        Some l \<Rightarrow> call_listener l [ArgValue err] s
      | None \<Rightarrow> console_log err s)"

definition socket_on_close :: "bool \<Rightarrow> machine \<Rightarrow> machine" where
  "socket_on_close had_error s =
     (case handle_close s of
        Some l \<Rightarrow> call_listener l [ArgBool had_error] s
      | None \<Rightarrow> s)"

text \<open>\<^verbatim>\<open>parsed.forEach(...)\<close> of the data handler (lines 163-168): each message takes the head
  of \<^verbatim>\<open>callbacks\<close> with \<^verbatim>\<open>shift()\<close> and calls it with \<^verbatim>\<open>(false, message)\<close>. On an empty array
  \<^verbatim>\<open>shift()\<close> gives \<^verbatim>\<open>undefined\<close>, and calling that throws a TypeError.\<close>

fun deliver :: "wire_message list \<Rightarrow> machine \<Rightarrow> machine result" where
  "deliver [] s = Returned s"
| "deliver (message # rest) s =
     (case callbacks s of
        [] \<Rightarrow> Threw (JsTypeError ''this.callbacks.shift(...) is not a function'') s
      | cb # cbs \<Rightarrow> deliver rest (call_callback cb False (Reply message) (s\<lparr>callbacks := cbs\<rparr>)))"

text \<open>The data handler (lines 160-169).\<close>

definition socket_on_data :: "string \<Rightarrow> machine \<Rightarrow> machine result" where
  "socket_on_data data s =
     (let s1 = s\<lparr>protocol := protocol_write (protocol s) data\<rparr>
      in case protocol_parse (protocol s1) of
           Inl e \<Rightarrow> Threw e s1
         | Inr (parsed, pr) \<Rightarrow> deliver parsed (s1\<lparr>protocol := pr\<rparr>))"

text \<open>\<^verbatim>\<open>socket.emit("error", error)\<close> runs the error handler registered by \<^verbatim>\<open>init\<close>.\<close>

definition socket_emit_error :: "js_value \<Rightarrow> machine \<Rightarrow> machine" where
  "socket_emit_error err s = socket_on_error err s"

text \<open>The \<^verbatim>\<open>catch\<close> block of \<^verbatim>\<open>auth\<close> (lines 130-133).\<close>

definition auth_catch :: "js_value \<Rightarrow> machine \<Rightarrow> machine" where
  "auth_catch err s = socket_end (socket_emit_error err s)"

text \<open>\<^verbatim>\<open>auth\<close> (lines 112-134) up to its \<^verbatim>\<open>await\<close>: the command is issued and the function
  is suspended on the command's promise. With neither credential the error object is made
  and thrown at once, without a command.\<close>

definition auth :: "interface_auth \<Rightarrow> machine \<Rightarrow> machine" where
  "auth opts s =
     (case (username opts, password opts) of
        (Some u, Some pw) \<Rightarrow>
          (case command [PStr ''AUTH'', PStr u, PStr pw] s of
             (p, s') \<Rightarrow> s'\<lparr>auth_await := Some p\<rparr>)
      | (Some u, None) \<Rightarrow>
          (case command [PStr ''AUTH'', PStr u] s of
             (p, s') \<Rightarrow> s'\<lparr>auth_await := Some p\<rparr>)
      | (None, Some pw) \<Rightarrow>
          (case command [PStr ''AUTH'', PStr pw] s of
             (p, s') \<Rightarrow> s'\<lparr>auth_await := Some p\<rparr>)
      | (None, None) \<Rightarrow> auth_catch (Exn (JsError ''Invalid AUTH options: {}'')) s)"

text \<open>\<^verbatim>\<open>auth\<close> after its \<^verbatim>\<open>await\<close> (lines 128-133), run once the awaited promise is settled:
  a rejection, or a value that is an error object, goes to the \<^verbatim>\<open>catch\<close> block.\<close>

definition auth_resume :: "machine \<Rightarrow> machine" where
  "auth_resume s =
     (case auth_await s of
        None \<Rightarrow> s
      | Some p \<Rightarrow>
          if p < length (promises s) then
            (case promises s ! p of
               Pending \<Rightarrow> s
             | Fulfilled v \<Rightarrow>
                 if instanceof_Error v then auth_catch v (s\<lparr>auth_await := None\<rparr>)
                 else s\<lparr>auth_await := None\<rparr>
             | Rejected v \<Rightarrow> auth_catch v (s\<lparr>auth_await := None\<rparr>))
          else s)"

text \<open>The constructor (lines 34-79). The identifier is \<^verbatim>\<open>uuidv4()\<close>, taken as an argument.
  \<^verbatim>\<open>options.host || "127.0.0.1"\<close> and \<^verbatim>\<open>options.port || 6379\<close> replace a missing, empty or zero
  value by the default.\<close>

definition host_or_default :: "string option \<Rightarrow> string" where
  "host_or_default h = (case h of None \<Rightarrow> ''127.0.0.1'' | Some x \<Rightarrow> if x = [] then ''127.0.0.1'' else x)"

definition port_or_default :: "int option \<Rightarrow> int" where
  "port_or_default n = (case n of None \<Rightarrow> 6379 | Some x \<Rightarrow> if x = 0 then 6379 else x)"

definition initial :: "string \<Rightarrow> options \<Rightarrow> machine" where
  "initial uuid opts =
     \<lparr>base_id = uuid,
      socket = \<lparr>sock_host = host_or_default (opt_host opts),
                sock_port = port_or_default (opt_port opts),
                sock_tls = opt_tls opts,
                sock_timeout = opt_timeout opts,
                written = [],
                ended = False\<rparr>,
      protocol = new_protocol,
      callbacks = [],
      handle_connect = None,
      handle_timeout = None,
      handle_error = None,
      handle_close = None,
      promises = [],
      trace = [],
      auth_await = None\<rparr>"

definition constructor :: "string \<Rightarrow> options \<Rightarrow> machine" where
  "constructor uuid opts =
     (let s = initial uuid opts
      in case opt_username opts of
           Some u \<Rightarrow> auth \<lparr>username = Some u, password = opt_password opts\<rparr> s
         | None \<Rightarrow>
             (case opt_password opts of
                Some pw \<Rightarrow> auth \<lparr>username = None, password = Some pw\<rparr> s
              | None \<Rightarrow> s))"

subsection \<open>Runs of a connection\<close>

text \<open>What happens to a connection: the caller issues a command, or the socket emits one of
  the events the class listens to. After each, the pending continuation of \<^verbatim>\<open>auth\<close> runs if
  its promise has been settled. A run returns the promises handed to the caller, in issue
  order, and stops at the first exception.\<close>

datatype event =
    Issue "param list"
  | Receive string
  | Connect
  | Timeout
  | TransportError js_value
  | Closed bool

fun add_handle :: "nat \<Rightarrow> (nat list \<times> machine) result \<Rightarrow> (nat list \<times> machine) result" where
  "add_handle p (Returned (hs, s)) = Returned (p # hs, s)"
| "add_handle p (Threw e (hs, s)) = Threw e (p # hs, s)"

fun run :: "event list \<Rightarrow> machine \<Rightarrow> (nat list \<times> machine) result" where
  "run [] s = Returned ([], s)"
| "run (Issue parameters # es) s =
     (case command parameters s of (p, s') \<Rightarrow> add_handle p (run es (auth_resume s')))"
| "run (Receive data # es) s =
     (case socket_on_data data s of
        Threw e s' \<Rightarrow> Threw e ([], s')
      | Returned s' \<Rightarrow> run es (auth_resume s'))"
| "run (Connect # es) s = run es (auth_resume (socket_on_connect s))"
| "run (Timeout # es) s = run es (auth_resume (socket_on_timeout s))"
| "run (TransportError err # es) s = run es (auth_resume (socket_on_error err s))"
| "run (Closed had_error # es) s = run es (auth_resume (socket_on_close had_error s))"



text \<open>Options with no field set: a connection to the default address without credentials.\<close>

definition plain_options :: options where
  "plain_options =
     \<lparr>opt_host = None, opt_port = None, opt_username = None, opt_password = None,
      opt_timeout = None, opt_tls = None\<rparr>"

text \<open>Options that set only the two credentials.\<close>

definition credentials :: "string option \<Rightarrow> string option \<Rightarrow> options" where
  "credentials u pw = plain_options\<lparr>opt_username := u, opt_password := pw\<rparr>"

text \<open>The state a method leaves, whether it returned or threw.\<close>

fun outcome :: "'a result \<Rightarrow> 'a" where
  "outcome (Returned s) = s"
| "outcome (Threw e s) = s"

fun final_state :: "(nat list \<times> machine) result \<Rightarrow> machine" where
  "final_state (Returned (hs, s)) = s"
| "final_state (Threw e (hs, s)) = s"




subsection \<open>The specification's own words\<close>

text \<open>The request frame as the specification writes it (section 6): \<^verbatim>\<open>*<argc>\r\n\<close> followed,
  for each argument, by \<^verbatim>\<open>$<len>\r\n<bytes>\r\n\<close>. The encoder is compared with it.\<close>

definition request_frame :: "string list \<Rightarrow> string" where
  "request_frame args =
     CHR ''*'' # show_nat (length args) @ CRLF @
     concat (map (\<lambda>a. CHR ''$'' # show_nat (length a) @ CRLF @ a @ CRLF) args)"

text \<open>The authentication command as the specification describes it: \<^verbatim>\<open>AUTH\<close> with the user
  name and the password when both are strings, with the user name alone, with the password
  alone, and no command without credentials. The constructor is compared with it.\<close>

definition auth_shape :: "options \<Rightarrow> param list option" where
  "auth_shape opts =
     (case (opt_username opts, opt_password opts) of
        (Some u, Some pw) \<Rightarrow> Some [PStr ''AUTH'', PStr u, PStr pw]
      | (Some u, None) \<Rightarrow> Some [PStr ''AUTH'', PStr u]
      | (None, Some pw) \<Rightarrow> Some [PStr ''AUTH'', PStr pw]
      | (None, None) \<Rightarrow> None)"

section \<open>What each step changes\<close>

text \<open>Field by field, what the primitive steps and the methods do to the state. Concrete runs
  are evaluated with these equations.\<close>

lemma resolve_frame [simp]:
  "callbacks (resolve p v s) = callbacks s"
  "protocol (resolve p v s) = protocol s"
  "socket (resolve p v s) = socket s"
  "trace (resolve p v s) = trace s"
  "auth_await (resolve p v s) = auth_await s"
  "length (promises (resolve p v s)) = length (promises s)"
  by (simp_all add: resolve_def)

lemma reject_frame [simp]:
  "callbacks (reject p v s) = callbacks s"
  "protocol (reject p v s) = protocol s"
  "socket (reject p v s) = socket s"
  "trace (reject p v s) = trace s"
  "auth_await (reject p v s) = auth_await s"
  "length (promises (reject p v s)) = length (promises s)"
  by (simp_all add: reject_def)

lemma call_callback_frame [simp]:
  "callbacks (call_callback cb err res s) = callbacks s"
  "protocol (call_callback cb err res s) = protocol s"
  "socket (call_callback cb err res s) = socket s"
  "auth_await (call_callback cb err res s) = auth_await s"
  "length (promises (call_callback cb err res s)) = length (promises s)"
  by (cases cb; simp add: Let_def)+

lemma socket_write_frame [simp]:
  "callbacks (socket_write b s) = callbacks s"
  "protocol (socket_write b s) = protocol s"
  "promises (socket_write b s) = promises s"
  "auth_await (socket_write b s) = auth_await s"
  "handle_connect (socket_write b s) = handle_connect s"
  "handle_timeout (socket_write b s) = handle_timeout s"
  "handle_error (socket_write b s) = handle_error s"
  "handle_close (socket_write b s) = handle_close s"
  "written (socket (socket_write b s)) = written (socket s) @ [b]"
  "ended (socket (socket_write b s)) = ended (socket s)"
  "trace (socket_write b s) = trace s @ [SocketWrite b]"
  by (simp_all add: socket_write_def)

lemma socket_end_frame [simp]:
  "callbacks (socket_end s) = callbacks s"
  "protocol (socket_end s) = protocol s"
  "promises (socket_end s) = promises s"
  "auth_await (socket_end s) = auth_await s"
  "handle_connect (socket_end s) = handle_connect s"
  "handle_timeout (socket_end s) = handle_timeout s"
  "handle_error (socket_end s) = handle_error s"
  "handle_close (socket_end s) = handle_close s"
  "written (socket (socket_end s)) = written (socket s)"
  "ended (socket (socket_end s)) = True"
  "trace (socket_end s) = trace s @ [SocketEnd]"
  by (simp_all add: socket_end_def)

lemma call_listener_frame [simp]:
  "callbacks (call_listener l args s) = callbacks s"
  "protocol (call_listener l args s) = protocol s"
  "promises (call_listener l args s) = promises s"
  "auth_await (call_listener l args s) = auth_await s"
  "handle_connect (call_listener l args s) = handle_connect s"
  "handle_timeout (call_listener l args s) = handle_timeout s"
  "handle_error (call_listener l args s) = handle_error s"
  "handle_close (call_listener l args s) = handle_close s"
  "socket (call_listener l args s) = socket s"
  "trace (call_listener l args s) = trace s @ [ListenerCall l args]"
  by (simp_all add: call_listener_def)

lemma console_log_frame [simp]:
  "callbacks (console_log v s) = callbacks s"
  "protocol (console_log v s) = protocol s"
  "promises (console_log v s) = promises s"
  "auth_await (console_log v s) = auth_await s"
  "handle_connect (console_log v s) = handle_connect s"
  "handle_timeout (console_log v s) = handle_timeout s"
  "handle_error (console_log v s) = handle_error s"
  "handle_close (console_log v s) = handle_close s"
  "socket (console_log v s) = socket s"
  "trace (console_log v s) = trace s @ [ConsoleLog v]"
  by (simp_all add: console_log_def)

lemma resolve_handles [simp]:
  "handle_connect (resolve p v s) = handle_connect s"
  "handle_timeout (resolve p v s) = handle_timeout s"
  "handle_error (resolve p v s) = handle_error s"
  "handle_close (resolve p v s) = handle_close s"
  by (simp_all add: resolve_def)

lemma reject_handles [simp]:
  "handle_connect (reject p v s) = handle_connect s"
  "handle_timeout (reject p v s) = handle_timeout s"
  "handle_error (reject p v s) = handle_error s"
  "handle_close (reject p v s) = handle_close s"
  by (simp_all add: reject_def)

lemma call_callback_handles [simp]:
  "handle_connect (call_callback cb err res s) = handle_connect s"
  "handle_timeout (call_callback cb err res s) = handle_timeout s"
  "handle_error (call_callback cb err res s) = handle_error s"
  "handle_close (call_callback cb err res s) = handle_close s"
  "trace (call_callback cb err res s) =
     trace s @ [CallbackCall (case cb of Callback p \<Rightarrow> p) err res]"
  by (cases cb; simp add: Let_def)+

lemma call_callback_promises:
  "promises (call_callback (Callback p) False v s) =
     (if p < length (promises s) \<and> promises s ! p = Pending
      then (promises s)[p := Fulfilled v] else promises s)"
  by (simp add: Let_def resolve_def)

lemma command_frame [simp]:
  "fst (command ps s) = length (promises s)"
  "callbacks (snd (command ps s)) = callbacks s @ [Callback (length (promises s))]"
  "promises (snd (command ps s)) =
     promises s @ [case encode ps of Inl e \<Rightarrow> Rejected (Exn e) | Inr b \<Rightarrow> Pending]"
  "protocol (snd (command ps s)) = protocol s"
  "auth_await (snd (command ps s)) = auth_await s"
  "handle_connect (snd (command ps s)) = handle_connect s"
  "handle_timeout (snd (command ps s)) = handle_timeout s"
  "handle_error (snd (command ps s)) = handle_error s"
  "handle_close (snd (command ps s)) = handle_close s"
  "written (socket (snd (command ps s))) =
     written (socket s) @ (case encode ps of Inl e \<Rightarrow> [] | Inr b \<Rightarrow> [b])"
  "ended (socket (snd (command ps s))) = ended (socket s)"
  "trace (snd (command ps s)) =
     trace s @ QueuePush (length (promises s)) #
       (case encode ps of Inl e \<Rightarrow> [] | Inr b \<Rightarrow> [SocketWrite b])"
  by (simp_all add: command_def Let_def reject_def nth_append split: sum.splits)

lemma socket_handlers_frame [simp]:
  "callbacks (socket_on_connect s) = callbacks s"
  "promises (socket_on_connect s) = promises s"
  "protocol (socket_on_connect s) = protocol s"
  "auth_await (socket_on_connect s) = auth_await s"
  "written (socket (socket_on_connect s)) = written (socket s)"
  "callbacks (socket_on_timeout s) = callbacks s"
  "promises (socket_on_timeout s) = promises s"
  "protocol (socket_on_timeout s) = protocol s"
  "auth_await (socket_on_timeout s) = auth_await s"
  "written (socket (socket_on_timeout s)) = written (socket s)"
  "callbacks (socket_on_error err s) = callbacks s"
  "promises (socket_on_error err s) = promises s"
  "protocol (socket_on_error err s) = protocol s"
  "auth_await (socket_on_error err s) = auth_await s"
  "written (socket (socket_on_error err s)) = written (socket s)"
  "callbacks (socket_on_close b s) = callbacks s"
  "promises (socket_on_close b s) = promises s"
  "protocol (socket_on_close b s) = protocol s"
  "auth_await (socket_on_close b s) = auth_await s"
  "written (socket (socket_on_close b s)) = written (socket s)"
  by (simp_all add: socket_on_connect_def socket_on_timeout_def socket_on_error_def
      socket_on_close_def close_def split: option.splits)

lemma auth_catch_frame [simp]:
  "callbacks (auth_catch err s) = callbacks s"
  "promises (auth_catch err s) = promises s"
  "protocol (auth_catch err s) = protocol s"
  "auth_await (auth_catch err s) = auth_await s"
  "written (socket (auth_catch err s)) = written (socket s)"
  by (simp_all add: auth_catch_def socket_emit_error_def)

lemma auth_resume_frame [simp]:
  "callbacks (auth_resume s) = callbacks s"
  "promises (auth_resume s) = promises s"
  "protocol (auth_resume s) = protocol s"
  "written (socket (auth_resume s)) = written (socket s)"
  by (simp_all add: auth_resume_def split: option.splits promise_state.splits)

lemma auth_resume_idle [simp]: "auth_await s = None \<Longrightarrow> auth_resume s = s"
  by (simp add: auth_resume_def)

lemma initial_fields [simp]:
  "callbacks (initial uuid opts) = []"
  "promises (initial uuid opts) = []"
  "protocol (initial uuid opts) = new_protocol"
  "auth_await (initial uuid opts) = None"
  "trace (initial uuid opts) = []"
  "written (socket (initial uuid opts)) = []"
  "ended (socket (initial uuid opts)) = False"
  "handle_connect (initial uuid opts) = None"
  "handle_timeout (initial uuid opts) = None"
  "handle_error (initial uuid opts) = None"
  "handle_close (initial uuid opts) = None"
  by (simp_all add: initial_def)

lemma constructor_plain [simp]: "constructor uuid plain_options = initial uuid plain_options"
  by (simp add: constructor_def plain_options_def)

lemma run_Issue:
  "run (Issue ps # es) s = add_handle (length (promises s)) (run es (auth_resume (snd (command ps s))))"
  by (simp add: case_prod_beta)

lemma buffer_new_protocol [simp]: "buffer new_protocol = []"
  by (simp add: new_protocol_def)

lemma socket_on_data_unfold:
  "socket_on_data data s =
     (case parse_all (buffer (protocol s) @ data) of
        Inl e \<Rightarrow> Threw e (s\<lparr>protocol := protocol_write (protocol s) data\<rparr>)
      | Inr (ms, rest) \<Rightarrow> deliver ms (s\<lparr>protocol := (protocol s)\<lparr>buffer := rest\<rparr>\<rparr>))"
  by (simp add: socket_on_data_def protocol_write_def protocol_parse_def Let_def
      split: sum.splits)

lemma resolve_promises:
  "promises (resolve p v s) =
     (if p < length (promises s) \<and> promises s ! p = Pending
      then (promises s)[p := Fulfilled v] else promises s)"
  by (simp add: resolve_def)

declare call_callback.simps [simp del]

section \<open>Properties of the codec\<close>

subsection \<open>Decimal text round trip\<close>

lemma digit_char_is_digit: "d < 10 \<Longrightarrow> is_digit (digit_char d)"
  by (simp add: is_digit_def digit_char_def)

lemma digit_val_digit_char: "d < 10 \<Longrightarrow> digit_val (digit_char d) = d"
  by (simp add: digit_val_def digit_char_def)

lemma show_nat_nonempty: "show_nat n \<noteq> []"
  by (subst show_nat.simps) simp

lemma show_nat_digits: "list_all is_digit (show_nat n)"
proof (induction n rule: show_nat.induct)
  case (1 n)
  show ?case
  proof (cases "n < 10")
    case True
    then show ?thesis by (subst show_nat.simps) (simp add: digit_char_is_digit)
  next
    case False
    with 1 show ?thesis by (subst show_nat.simps) (simp add: digit_char_is_digit)
  qed
qed

lemma show_nat_value: "foldl (\<lambda>a c. 10 * a + digit_val c) 0 (show_nat n) = n"
proof (induction n rule: show_nat.induct)
  case (1 n)
  show ?case
  proof (cases "n < 10")
    case True
    then show ?thesis by (subst show_nat.simps) (simp add: digit_val_digit_char)
  next
    case False
    with 1 show ?thesis by (subst show_nat.simps) (simp add: digit_val_digit_char)
  qed
qed

lemma parse_nat_show_nat: "parse_nat (show_nat n) = Some n"
  by (simp add: parse_nat_def show_nat_nonempty show_nat_digits show_nat_value)

lemma is_digit_not_sign: "is_digit c \<Longrightarrow> c \<noteq> CHR ''-'' \<and> c \<noteq> CHR ''+'' \<and> c \<noteq> CR"
  by (auto simp: is_digit_def)

lemma show_nat_no_CR: "CR \<notin> set (show_nat n)"
  using show_nat_digits [of n] is_digit_not_sign by (auto simp: list_all_iff)

lemma parse_int_show_nat: "parse_int (show_nat n) = Some (int n)"
proof (cases "show_nat n")
  case Nil
  then show ?thesis using show_nat_nonempty by simp
next
  case (Cons c ds)
  then have "is_digit c" using show_nat_digits [of n] by simp
  then have "c \<noteq> CHR ''-''" "c \<noteq> CHR ''+''" using is_digit_not_sign by auto
  then show ?thesis using Cons parse_nat_show_nat [of n] by (simp add: parse_int_def)
qed

lemma parse_int_show_int: "parse_int (show_int i) = Some i"
proof (cases "i < 0")
  case True
  then show ?thesis by (simp add: show_int_def parse_int_def parse_nat_show_nat)
next
  case False
  then show ?thesis by (simp add: show_int_def parse_int_show_nat)
qed

lemma show_int_no_CR: "CR \<notin> set (show_int i)"
  by (simp add: show_int_def show_nat_no_CR)

subsection \<open>Lines and messages\<close>

lemma read_line_take:
  "CR \<notin> set s \<Longrightarrow>
   read_line (take j (s @ CRLF @ rest)) = (if j < length s + 2 then None else Some s)"
proof (induction s arbitrary: j)
  case Nil
  show ?case
  proof (cases j)
    case 0
    then show ?thesis by simp
  next
    case (Suc j')
    then show ?thesis by (cases j') simp_all
  qed
next
  case (Cons c s)
  show ?case
  proof (cases j)
    case 0
    then show ?thesis by simp
  next
    case (Suc j')
    note j = this
    from Cons.prems have c: "c \<noteq> CR" and s: "CR \<notin> set s" by auto
    show ?thesis
    proof (cases "take j' (s @ CRLF @ rest)")
      case Nil
      then have "j' = 0" by (cases j') (auto simp: take_Cons' split: if_splits)
      then show ?thesis using j by simp
    next
      case (Cons d ds)
      then have "read_line (c # take j' (s @ CRLF @ rest)) =
                 map_option ((#) c) (read_line (take j' (s @ CRLF @ rest)))"
        using c by simp
      then show ?thesis using j Cons.IH [OF s, of j'] by simp
    qed
  qed
qed

lemma read_line_full: "CR \<notin> set s \<Longrightarrow> read_line (s @ CRLF @ rest) = Some s"
  using read_line_take [of s "length (s @ CRLF @ rest)" rest] by simp


lemma parse_elements_roundtrip_aux:
  assumes "\<And>m rest. m \<in> set ms \<Longrightarrow> well_formed m \<Longrightarrow>
             parse_message (serialize m @ rest) = Complete m (length (serialize m))"
    and "list_all well_formed ms"
  shows "parse_elements (length ms) (stream ms @ rest) = Complete ms (length (stream ms))"
  using assms
proof (induction ms arbitrary: rest)
  case Nil
  then show ?case by simp
next
  case (Cons m ms)
  have m: "parse_message (serialize m @ stream ms @ rest) = Complete m (length (serialize m))"
    using Cons.prems by simp
  have ms: "parse_elements (length ms) (stream ms @ rest) = Complete ms (length (stream ms))"
    using Cons.IH Cons.prems by simp
  show ?case using m ms by simp
qed

lemma parse_message_roundtrip:
  "well_formed m \<Longrightarrow> parse_message (serialize m @ rest) = Complete m (length (serialize m))"
proof (induction m arbitrary: rest)
  case (Simple s)
  then show ?case using read_line_full [of s rest] by simp
next
  case (Error s)
  then show ?case using read_line_full [of s rest] by simp
next
  case (Integer i)
  then show ?case
    using read_line_full [OF show_int_no_CR, of i rest] by (simp add: parse_int_show_int)
next
  case (BulkString b)
  show ?case
  proof (cases b)
    case None
    have "read_line (''-1'' @ CRLF @ rest) = Some ''-1''"
      by (rule read_line_full) simp
    moreover have "parse_int ''-1'' = Some (- 1)"
      by (simp add: parse_int_def parse_nat_def is_digit_def digit_val_def)
    ultimately show ?thesis using None by simp
  next
    case (Some bs)
    have "read_line (show_nat (length bs) @ CRLF @ bs @ CRLF @ rest) = Some (show_nat (length bs))"
      by (rule read_line_full) (rule show_nat_no_CR)
    then show ?thesis using Some by (simp add: parse_int_show_nat)
  qed
next
  case (Array a)
  show ?case
  proof (cases a)
    case None
    have "read_line (''-1'' @ CRLF @ rest) = Some ''-1''"
      by (rule read_line_full) simp
    moreover have "parse_int ''-1'' = Some (- 1)"
      by (simp add: parse_int_def parse_nat_def is_digit_def digit_val_def)
    ultimately show ?thesis using None by simp
  next
    case (Some ms)
    have hd: "read_line (show_nat (length ms) @ CRLF @ stream ms @ rest) = Some (show_nat (length ms))"
      by (rule read_line_full) (rule show_nat_no_CR)
    have wf: "list_all well_formed ms" using Array.prems Some by simp
    have el: "parse_elements (length ms) (stream ms @ rest) = Complete ms (length (stream ms))"
      by (rule parse_elements_roundtrip_aux) (use Array.IH Some wf in auto)
    show ?thesis using Some hd el by (simp add: parse_int_show_nat)
  qed
qed

lemma parse_elements_roundtrip:
  "list_all well_formed ms \<Longrightarrow>
   parse_elements (length ms) (stream ms @ rest) = Complete ms (length (stream ms))"
  by (rule parse_elements_roundtrip_aux) (auto simp: parse_message_roundtrip)

lemma parse_elements_prefix_aux:
  assumes "\<And>m j. m \<in> set ms \<Longrightarrow> well_formed m \<Longrightarrow> j < length (serialize m) \<Longrightarrow>
             parse_message (take j (serialize m)) = NeedMore"
    and "list_all well_formed ms"
    and "j < length (stream ms)"
  shows "parse_elements (length ms) (take j (stream ms)) = NeedMore"
  using assms
proof (induction ms arbitrary: j)
  case Nil
  then show ?case by simp
next
  case (Cons m ms)
  have wfm: "well_formed m" and wfms: "list_all well_formed ms" using Cons.prems(2) by auto
  show ?case
  proof (cases "j < length (serialize m)")
    case True
    then have "parse_message (take j (serialize m)) = NeedMore"
      using Cons.prems(1) [of m j] wfm by simp
    then show ?thesis using True by simp
  next
    case False
    then have tk: "take j (stream (m # ms)) = serialize m @ take (j - length (serialize m)) (stream ms)"
      by simp
    have lt: "j - length (serialize m) < length (stream ms)"
      using False Cons.prems(3) by simp
    have "parse_elements (length ms) (take (j - length (serialize m)) (stream ms)) = NeedMore"
      using Cons.IH [OF _ wfms lt] Cons.prems(1) by simp
    then show ?thesis
      unfolding tk using parse_message_roundtrip [OF wfm] by simp
  qed
qed

lemma parse_message_prefix:
  "well_formed m \<Longrightarrow> j < length (serialize m) \<Longrightarrow> parse_message (take j (serialize m)) = NeedMore"
proof (induction m arbitrary: j)
  case (Simple s)
  show ?case
  proof (cases j)
    case 0
    then show ?thesis by simp
  next
    case (Suc j')
    then show ?thesis using Simple read_line_take [of s j' "[]"] by simp
  qed
next
  case (Error s)
  show ?case
  proof (cases j)
    case 0
    then show ?thesis by simp
  next
    case (Suc j')
    then show ?thesis using Error read_line_take [of s j' "[]"] by simp
  qed
next
  case (Integer i)
  show ?case
  proof (cases j)
    case 0
    then show ?thesis by simp
  next
    case (Suc j')
    then show ?thesis
      using Integer read_line_take [OF show_int_no_CR, of j' i "[]"] by simp
  qed
next
  case (BulkString b)
  show ?case
  proof (cases j)
    case 0
    then show ?thesis by simp
  next
    case (Suc j')
    show ?thesis
    proof (cases b)
      case None
      have "read_line (take j' (''-1'' @ CRLF @ [])) = None"
        using BulkString None Suc by (subst read_line_take) simp_all
      then show ?thesis using None Suc by simp
    next
      case (Some bs)
      have rl: "read_line (take j' (show_nat (length bs) @ CRLF @ bs @ CRLF)) =
            (if j' < length (show_nat (length bs)) + 2 then None else Some (show_nat (length bs)))"
        by (rule read_line_take) (rule show_nat_no_CR)
      show ?thesis using Some Suc BulkString rl by (simp add: parse_int_show_nat)
    qed
  qed
next
  case (Array a)
  show ?case
  proof (cases j)
    case 0
    then show ?thesis by simp
  next
    case (Suc j')
    show ?thesis
    proof (cases a)
      case None
      have "read_line (take j' (''-1'' @ CRLF @ [])) = None"
        using Array.prems None Suc by (subst read_line_take) simp_all
      then show ?thesis using None Suc by simp
    next
      case (Some ms)
      let ?h = "show_nat (length ms)"
      have rl: "read_line (take j' (?h @ CRLF @ stream ms)) =
            (if j' < length ?h + 2 then None else Some ?h)"
        by (rule read_line_take) (rule show_nat_no_CR)
      show ?thesis
      proof (cases "j' < length ?h + 2")
        case True
        then show ?thesis using Some Suc rl by simp
      next
        case False
        have wf: "list_all well_formed ms" using Array.prems Some by simp
        have lt: "j' - (length ?h + 2) < length (stream ms)"
          using False Array.prems(2) Some Suc by simp
        have dr: "drop (length ?h + 2) (take j' (?h @ CRLF @ stream ms)) =
                  take (j' - (length ?h + 2)) (stream ms)"
          using False by (simp add: drop_take)
        have "parse_elements (length ms) (take (j' - (length ?h + 2)) (stream ms)) = NeedMore"
          by (rule parse_elements_prefix_aux) (use Array.IH Some wf lt in auto)
        then show ?thesis using Some Suc rl False dr by (simp add: parse_int_show_nat)
      qed
    qed
  qed
qed

subsection \<open>Draining a buffer\<close>


lemma parse_all_empty: "parse_all [] = Inr ([], [])"
  by (simp add: parse_all.simps)

lemma parse_all_NeedMore: "parse_message buf = NeedMore \<Longrightarrow> parse_all buf = Inr ([], buf)"
  by (simp add: parse_all.simps)

lemma parse_all_Complete:
  "parse_message buf = Complete m k \<Longrightarrow>
   parse_all buf = (case parse_all (drop k buf) of
                      Inl e \<Rightarrow> Inl e
                    | Inr (ms, rest) \<Rightarrow> Inr (m # ms, rest))"
  by (subst parse_all.simps) simp

lemma parse_all_take:
  assumes "list_all well_formed ms"
  shows "\<exists>i r. i \<le> length ms \<and>
           parse_all (take j (stream ms)) = Inr (take i ms, r) \<and>
           r @ drop j (stream ms) = stream (drop i ms) \<and>
           length (stream (take i ms)) + length r = min j (length (stream ms))"
  using assms
proof (induction ms arbitrary: j)
  case Nil
  show ?case by (simp add: parse_all_empty)
next
  case (Cons m ms)
  have wfm: "well_formed m" and wfms: "list_all well_formed ms" using Cons.prems by auto
  let ?n = "length (serialize m)"
  show ?case
  proof (cases "j < ?n")
    case True
    have nm: "parse_message (take j (serialize m)) = NeedMore"
      using parse_message_prefix [OF wfm True] .
    have "parse_all (take j (stream (m # ms))) = Inr (take 0 (m # ms), take j (serialize m))"
      using True parse_all_NeedMore [OF nm] by simp
    moreover have "take j (serialize m) @ drop j (stream (m # ms)) = stream (drop 0 (m # ms))"
      using True by simp
    moreover have "length (stream (take 0 (m # ms))) + length (take j (serialize m)) =
                   min j (length (stream (m # ms)))"
      using True by simp
    ultimately show ?thesis by (intro exI [where x = 0] exI [where x = "take j (serialize m)"]) simp
  next
    case False
    from Cons.IH [OF wfms, of "j - ?n"] obtain i r where
      i: "i \<le> length ms" and
      p: "parse_all (take (j - ?n) (stream ms)) = Inr (take i ms, r)" and
      r: "r @ drop (j - ?n) (stream ms) = stream (drop i ms)" and
      l: "length (stream (take i ms)) + length r = min (j - ?n) (length (stream ms))"
      by blast
    have tk: "take j (stream (m # ms)) = serialize m @ take (j - ?n) (stream ms)"
      using False by simp
    have c: "parse_message (serialize m @ take (j - ?n) (stream ms)) = Complete m ?n"
      by (rule parse_message_roundtrip [OF wfm])
    have "parse_all (take j (stream (m # ms))) = Inr (take (Suc i) (m # ms), r)"
      unfolding tk using parse_all_Complete [OF c] p by simp
    moreover have "r @ drop j (stream (m # ms)) = stream (drop (Suc i) (m # ms))"
      using False r by simp
    moreover have "length (stream (take (Suc i) (m # ms))) + length r =
                   min j (length (stream (m # ms)))"
      using False l by simp
    moreover have "Suc i \<le> length (m # ms)" using i by simp
    ultimately show ?thesis by blast
  qed
qed

lemma parse_all_stream:
  "list_all well_formed ms \<Longrightarrow> parse_all (stream ms) = Inr (ms, [])"
proof (induction ms)
  case Nil
  show ?case by (simp add: parse_all_empty)
next
  case (Cons m ms)
  then have wfm: "well_formed m" and ih: "parse_all (stream ms) = Inr (ms, [])" by auto
  have c: "parse_message (serialize m @ stream ms) = Complete m (length (serialize m))"
    by (rule parse_message_roundtrip [OF wfm])
  show ?case using parse_all_Complete [OF c] ih by simp
qed

lemma stream_take_drop: "stream (take i ms) @ stream (drop i ms) = stream ms"
  by (metis append_take_drop_id concat_append map_append)

lemma parse_all_take_consumed:
  assumes "list_all well_formed ms"
  obtains i r where "i \<le> length ms"
    and "parse_all (take j (stream ms)) = Inr (take i ms, r)"
    and "r @ drop j (stream ms) = stream (drop i ms)"
    and "take j (stream ms) = stream (take i ms) @ r"
proof -
  from parse_all_take [OF assms, of j] obtain i r where
    i: "i \<le> length ms" and
    p: "parse_all (take j (stream ms)) = Inr (take i ms, r)" and
    r: "r @ drop j (stream ms) = stream (drop i ms)"
    by blast
  have "(stream (take i ms) @ r) @ drop j (stream ms) = take j (stream ms) @ drop j (stream ms)"
    using r stream_take_drop [of i ms] by simp
  then have "take j (stream ms) = stream (take i ms) @ r"
    by (simp only: append_same_eq)
  with i p r that show thesis by blast
qed





section \<open>Decoding across chunk boundaries\<close>

text \<open>C6. Let the bytes of K well-formed replies be cut at any offset \<open>j\<close> into two chunks,
  each written to the decoder and followed by a parse. The first parse returns some of the
  messages and keeps exactly the bytes after them; the second returns the others and leaves
  the buffer empty; together they are the K messages, the same list a single write of all
  the bytes gives. A buffer that starts with an incomplete message is left as it is by a
  parse, which returns no message.\<close>

theorem decoder_split_invariant:
  "(list_all well_formed ms \<longrightarrow>
      (case protocol_parse (protocol_write new_protocol (take j (stream ms))) of
         Inl e \<Rightarrow> False
       | Inr (ms1, d1) \<Rightarrow>
           take j (stream ms) = stream ms1 @ buffer d1 \<and>
           (case protocol_parse (protocol_write d1 (drop j (stream ms))) of
              Inl e \<Rightarrow> False
            | Inr (ms2, d2) \<Rightarrow> ms1 @ ms2 = ms \<and> buffer d2 = [])) \<and>
      protocol_parse (protocol_write new_protocol (stream ms)) = Inr (ms, new_protocol)) \<and>
   (parse_message (buffer d) = NeedMore \<longrightarrow> protocol_parse d = Inr ([], d))"
proof (intro conjI impI)
  assume wf: "list_all well_formed ms"
  from parse_all_take_consumed [OF wf, of j] obtain i r where
    i: "i \<le> length ms" and
    p: "parse_all (take j (stream ms)) = Inr (take i ms, r)" and
    r: "r @ drop j (stream ms) = stream (drop i ms)" and
    t: "take j (stream ms) = stream (take i ms) @ r"
    by blast
  have wfd: "list_all well_formed (drop i ms)"
    using wf by (auto simp: list_all_iff dest: in_set_dropD)
  have p2: "parse_all (r @ drop j (stream ms)) = Inr (drop i ms, [])"
    unfolding r by (rule parse_all_stream [OF wfd])
  show "case protocol_parse (protocol_write new_protocol (take j (stream ms))) of
         Inl e \<Rightarrow> False
       | Inr (ms1, d1) \<Rightarrow>
           take j (stream ms) = stream ms1 @ buffer d1 \<and>
           (case protocol_parse (protocol_write d1 (drop j (stream ms))) of
              Inl e \<Rightarrow> False
            | Inr (ms2, d2) \<Rightarrow> ms1 @ ms2 = ms \<and> buffer d2 = [])"
    using p p2 t by (simp add: protocol_parse_def protocol_write_def new_protocol_def)
  show "protocol_parse (protocol_write new_protocol (stream ms)) = Inr (ms, new_protocol)"
    using parse_all_stream [OF wf]
    by (simp add: protocol_parse_def protocol_write_def new_protocol_def)
next
  assume "parse_message (buffer d) = NeedMore"
  then show "protocol_parse d = Inr ([], d)"
    by (simp add: protocol_parse_def parse_all_NeedMore)
qed

lemma two_replies:
  "stream [Simple ''OK'', BulkString (Some ''ab'')] =
     ''+OK'' @ CRLF @ ''$2'' @ CRLF @ ''ab'' @ CRLF"
  by code_simp

theorem decoder_split_invariant_witness:
  "protocol_parse (protocol_write new_protocol (''+OK'' @ CRLF @ ''$2'' @ CRLF @ ''a'')) =
     Inr ([Simple ''OK''], \<lparr>buffer = ''$2'' @ CRLF @ ''a''\<rparr>) \<and>
   protocol_parse (protocol_write \<lparr>buffer = ''$2'' @ CRLF @ ''a''\<rparr> (''b'' @ CRLF)) =
     Inr ([BulkString (Some ''ab'')], new_protocol) \<and>
   protocol_parse (protocol_write new_protocol (''+OK'' @ CRLF @ ''$2'' @ CRLF @ ''ab'' @ CRLF)) =
     Inr ([Simple ''OK'', BulkString (Some ''ab'')], new_protocol) \<and>
   protocol_parse \<lparr>buffer = ''$2'' @ CRLF @ ''a''\<rparr> = Inr ([], \<lparr>buffer = ''$2'' @ CRLF @ ''a''\<rparr>)"
proof -
  have wf: "list_all well_formed [Simple ''OK'', BulkString (Some ''ab'')]"
    by simp
  have nm: "parse_message (buffer \<lparr>buffer = ''$2'' @ CRLF @ ''a''\<rparr>) = NeedMore"
    by code_simp
  note w = decoder_split_invariant [of "[Simple ''OK'', BulkString (Some ''ab'')]" 10
      "\<lparr>buffer = ''$2'' @ CRLF @ ''a''\<rparr>"]
  have 1: "protocol_parse (protocol_write new_protocol (''+OK'' @ CRLF @ ''$2'' @ CRLF @ ''a'')) =
     Inr ([Simple ''OK''], \<lparr>buffer = ''$2'' @ CRLF @ ''a''\<rparr>)"
    by (simp add: protocol_parse_def protocol_write_def new_protocol_def parse_all.simps
        parse_int_def parse_nat_def is_digit_def digit_val_def)
  have 2: "protocol_parse (protocol_write \<lparr>buffer = ''$2'' @ CRLF @ ''a''\<rparr> (''b'' @ CRLF)) =
     Inr ([BulkString (Some ''ab'')], new_protocol)"
    by (simp add: protocol_parse_def protocol_write_def new_protocol_def parse_all.simps
        parse_int_def parse_nat_def is_digit_def digit_val_def)
  have 3: "protocol_parse (protocol_write new_protocol (''+OK'' @ CRLF @ ''$2'' @ CRLF @ ''ab'' @ CRLF)) =
     Inr ([Simple ''OK'', BulkString (Some ''ab'')], new_protocol)"
    using w wf unfolding two_replies by simp
  have 4: "protocol_parse \<lparr>buffer = ''$2'' @ CRLF @ ''a''\<rparr> = Inr ([], \<lparr>buffer = ''$2'' @ CRLF @ ''a''\<rparr>)"
    using w nm by simp
  from 1 2 3 4 show ?thesis by (intro conjI)
qed

section \<open>Registering listeners\<close>

text \<open>C10. A call of \<^verbatim>\<open>on\<close> with the event name "connect", "timeout", "error" or "close"
  returns normally, and the state it leaves differs from the one before only in that event's
  listener field, which now holds the given listener whatever it held before. With any other
  event name the call throws an Error with the message "event not found" and the state is
  the one before the call.\<close>

theorem on_registers_or_throws:
  "(event = ''connect'' \<longrightarrow> on event l s = Returned (s\<lparr>handle_connect := Some l\<rparr>)) \<and>
   (event = ''timeout'' \<longrightarrow> on event l s = Returned (s\<lparr>handle_timeout := Some l\<rparr>)) \<and>
   (event = ''error'' \<longrightarrow> on event l s = Returned (s\<lparr>handle_error := Some l\<rparr>)) \<and>
   (event = ''close'' \<longrightarrow> on event l s = Returned (s\<lparr>handle_close := Some l\<rparr>)) \<and>
   (event \<notin> {''connect'', ''timeout'', ''error'', ''close''} \<longrightarrow>
      on event l s = Threw (JsError ''event not found'') s)"
  by (simp add: on_def)

theorem on_registers_or_throws_witness:
  "on ''close'' 2 ((initial ''u'' plain_options)\<lparr>handle_close := Some 1\<rparr>) =
     Returned ((initial ''u'' plain_options)\<lparr>handle_close := Some 2\<rparr>) \<and>
   on ''connect'' 3 (initial ''u'' plain_options) =
     Returned ((initial ''u'' plain_options)\<lparr>handle_connect := Some 3\<rparr>) \<and>
   on ''timeout'' 3 (initial ''u'' plain_options) =
     Returned ((initial ''u'' plain_options)\<lparr>handle_timeout := Some 3\<rparr>) \<and>
   on ''error'' 3 (initial ''u'' plain_options) =
     Returned ((initial ''u'' plain_options)\<lparr>handle_error := Some 3\<rparr>) \<and>
   on ''message'' 3 (initial ''u'' plain_options) =
     Threw (JsError ''event not found'') (initial ''u'' plain_options)"
  using on_registers_or_throws [of "''close''" 2 "(initial ''u'' plain_options)\<lparr>handle_close := Some 1\<rparr>"]
    on_registers_or_throws [of "''connect''" 3 "initial ''u'' plain_options"]
    on_registers_or_throws [of "''timeout''" 3 "initial ''u'' plain_options"]
    on_registers_or_throws [of "''error''" 3 "initial ''u'' plain_options"]
    on_registers_or_throws [of "''message''" 3 "initial ''u'' plain_options"]
  by simp

section \<open>The unchecked pop of the data handler\<close>

lemma deliver_enough:
  "length parsed \<le> length (callbacks s) \<Longrightarrow> \<exists>s'. deliver parsed s = Returned s'"
proof (induction parsed arbitrary: s)
  case Nil
  then show ?case by simp
next
  case (Cons m ms)
  then obtain cb cbs where cbs: "callbacks s = cb # cbs" by (cases "callbacks s") auto
  have "length ms \<le> length (callbacks (call_callback cb False (Reply m) (s\<lparr>callbacks := cbs\<rparr>)))"
    using Cons.prems cbs by simp
  from Cons.IH [OF this] show ?case using cbs by simp
qed

lemma deliver_short:
  "length (callbacks s) < length parsed \<Longrightarrow>
   \<exists>s'. deliver parsed s = Threw (JsTypeError ''this.callbacks.shift(...) is not a function'') s'"
proof (induction parsed arbitrary: s)
  case Nil
  then show ?case by simp
next
  case (Cons m ms)
  show ?case
  proof (cases "callbacks s")
    case Nil
    then show ?thesis by simp
  next
    case (Cons cb cbs)
    have "length (callbacks (call_callback cb False (Reply m) (s\<lparr>callbacks := cbs\<rparr>))) < length ms"
      using Cons.prems Cons by simp
    from Cons.IH [OF this] show ?thesis using Cons by simp
  qed
qed

text \<open>C9. For a data event whose bytes, appended to the decoder's buffer, parse to a list of
  messages: when the messages are no more than the pending callbacks, every pop finds a
  callback and the handler returns; when they are more, the handler calls \<^verbatim>\<open>undefined\<close> and
  throws the TypeError of that call, not an error of the connection's own.\<close>

theorem data_handler_unchecked_shift:
  "protocol_parse (protocol_write (protocol s) data) = Inr (parsed, pr) \<Longrightarrow>
   (length parsed \<le> length (callbacks s) \<longrightarrow> (\<exists>s'. socket_on_data data s = Returned s')) \<and>
   (length (callbacks s) < length parsed \<longrightarrow>
      (\<exists>s'. socket_on_data data s =
         Threw (JsTypeError ''this.callbacks.shift(...) is not a function'') s'))"
  using deliver_enough [of parsed "s\<lparr>protocol := pr\<rparr>"]
    deliver_short [of "s\<lparr>protocol := pr\<rparr>" parsed]
  by (simp add: socket_on_data_def Let_def)

theorem data_handler_unchecked_shift_witness:
  "(\<exists>s'. socket_on_data (''+OK'' @ CRLF)
           (snd (command [PStr ''PING''] (initial ''u'' plain_options))) = Returned s') \<and>
   (\<exists>s'. socket_on_data (''+OK'' @ CRLF) (initial ''u'' plain_options) =
      Threw (JsTypeError ''this.callbacks.shift(...) is not a function'') s')"
proof -
  have p1: "protocol_parse
              (protocol_write (protocol (snd (command [PStr ''PING''] (initial ''u'' plain_options))))
                 (''+OK'' @ CRLF))
            = Inr ([Simple ''OK''], new_protocol)"
    by (simp add: protocol_parse_def protocol_write_def new_protocol_def parse_all.simps)
  have p0: "protocol_parse (protocol_write (protocol (initial ''u'' plain_options)) (''+OK'' @ CRLF))
            = Inr ([Simple ''OK''], new_protocol)"
    by (simp add: protocol_parse_def protocol_write_def new_protocol_def parse_all.simps)
  show ?thesis
    using data_handler_unchecked_shift [OF p1] data_handler_unchecked_shift [OF p0]
    by simp
qed

section \<open>Transport events and the pending queue\<close>

text \<open>Three commands are pending when the transport closes with an error: after the close
  handler the three callbacks are still queued and the three promises are still pending.\<close>

theorem close_leaves_pending_counterexample:
  "(case run [Issue [PStr ''GET'', PStr ''a''], Issue [PStr ''GET'', PStr ''b''],
              Issue [PStr ''GET'', PStr ''c''], Closed True] (constructor ''u'' plain_options) of
      Returned (hs, s) \<Rightarrow>
        hs = [0, 1, 2] \<and> callbacks s = [Callback 0, Callback 1, Callback 2] \<and>
        promises s = [Pending, Pending, Pending]
    | Threw e x \<Rightarrow> False)"
  by (simp add: run_Issue encode_def del: run.simps(2))

text \<open>C3, as the code has it. When the transport closes, the close handler passes
  \<^verbatim>\<open>had_error\<close> to the registered close listener, if there is one, and does nothing else: the
  pending queue and every promise are as they were. The error and timeout handlers leave
  them unchanged as well.\<close>

theorem transport_events_leave_queue:
  "callbacks (socket_on_close had_error s) = callbacks s \<and>
   promises (socket_on_close had_error s) = promises s \<and>
   trace (socket_on_close had_error s) =
     trace s @ (case handle_close s of
                  Some l \<Rightarrow> [ListenerCall l [ArgBool had_error]]
                | None \<Rightarrow> []) \<and>
   callbacks (socket_on_error err s) = callbacks s \<and>
   promises (socket_on_error err s) = promises s \<and>
   callbacks (socket_on_timeout s) = callbacks s \<and>
   promises (socket_on_timeout s) = promises s"
  by (simp add: socket_on_close_def socket_on_error_def socket_on_timeout_def
      close_def split: option.splits)

section \<open>Issuing a command\<close>

lemma encode_GET_k:
  "encode [PStr ''GET'', PStr ''k''] =
     Inr (''*2'' @ CRLF @ ''$3'' @ CRLF @ ''GET'' @ CRLF @ ''$1'' @ CRLF @ ''k'' @ CRLF)"
  by code_simp

text \<open>C5. When a command is issued and its arguments encode, the bytes are written to the
  socket of a state in which the command's callback is already at the tail of the queue: in
  the trace the push comes first and the write second, and nothing comes between them.\<close>

theorem command_registers_before_write:
  "encode parameters = Inr bytes \<Longrightarrow>
   \<exists>s2. callbacks s2 = callbacks s @ [Callback (fst (command parameters s))] \<and>
        written (socket s2) = written (socket s) \<and>
        snd (command parameters s) = socket_write bytes s2 \<and>
        trace (snd (command parameters s)) =
          trace s @ [QueuePush (fst (command parameters s)), SocketWrite bytes]"
proof -
  let ?p = "length (promises s)"
  let ?s2 = "s\<lparr>promises := promises s @ [Pending], callbacks := callbacks s @ [Callback ?p],
               trace := trace s @ [QueuePush ?p]\<rparr>"
  assume e: "encode parameters = Inr bytes"
  have c: "command parameters s = (?p, socket_write bytes ?s2)"
    unfolding command_def Let_def e by simp
  show ?thesis
  proof (intro exI [where x = ?s2] conjI)
    show "callbacks ?s2 = callbacks s @ [Callback (fst (command parameters s))]"
      by simp
    show "written (socket ?s2) = written (socket s)"
      by simp
    show "snd (command parameters s) = socket_write bytes ?s2"
      by (simp only: c snd_conv)
    show "trace (snd (command parameters s)) =
          trace s @ [QueuePush (fst (command parameters s)), SocketWrite bytes]"
      by (simp add: e)
  qed
qed

theorem command_registers_before_write_witness:
  "encode [PStr ''GET'', PStr ''k''] =
     Inr (''*2'' @ CRLF @ ''$3'' @ CRLF @ ''GET'' @ CRLF @ ''$1'' @ CRLF @ ''k'' @ CRLF) \<and>
   (\<exists>s2. callbacks s2 =
           callbacks (initial ''u'' plain_options) @
           [Callback (fst (command [PStr ''GET'', PStr ''k''] (initial ''u'' plain_options)))] \<and>
        written (socket s2) = written (socket (initial ''u'' plain_options)) \<and>
        snd (command [PStr ''GET'', PStr ''k''] (initial ''u'' plain_options)) =
          socket_write (''*2'' @ CRLF @ ''$3'' @ CRLF @ ''GET'' @ CRLF @ ''$1'' @ CRLF @ ''k'' @ CRLF) s2 \<and>
        trace (snd (command [PStr ''GET'', PStr ''k''] (initial ''u'' plain_options))) =
          trace (initial ''u'' plain_options) @
          [QueuePush (fst (command [PStr ''GET'', PStr ''k''] (initial ''u'' plain_options))),
           SocketWrite (''*2'' @ CRLF @ ''$3'' @ CRLF @ ''GET'' @ CRLF @ ''$1'' @ CRLF @ ''k'' @ CRLF)])"
  by (rule conjI [OF encode_GET_k
        command_registers_before_write [OF encode_GET_k, of "initial ''u'' plain_options"]])

text \<open>A command with an argument that is neither a string nor a number: the encoder rejects
  it, and the queue, empty before the call, holds the command's callback after it. The next
  reply is then taken by that callback, and the command it answers stays pending.\<close>

theorem malformed_command_counterexample:
  "encode [PStr ''SET'', POther] = Inl UsageError \<and>
   callbacks (initial ''u'' plain_options) = [] \<and>
   callbacks (snd (command [PStr ''SET'', POther] (initial ''u'' plain_options))) = [Callback 0] \<and>
   (case run [Issue [PStr ''SET'', POther], Issue [PStr ''GET'', PStr ''k''],
              Receive (''+OK'' @ CRLF)] (initial ''u'' plain_options) of
      Returned (hs, s) \<Rightarrow>
        hs = [0, 1] \<and> promises s = [Rejected (Exn UsageError), Pending] \<and>
        callbacks s = [Callback 1]
    | Threw e x \<Rightarrow> False)"
  by (simp add: run_Issue socket_on_data_unfold parse_all.simps encode_def
      call_callback_promises del: run.simps(2))

text \<open>C4, as the code has it. When the encoder rejects the arguments of a command, nothing
  is written to the socket and the promise the call returns is already rejected with the
  encoder's error; the callback was pushed before the encoder ran, so the queue is the queue
  before the call with that one entry appended.\<close>

theorem malformed_command_rejected_unwritten:
  "encode parameters = Inl e \<Longrightarrow>
   (case command parameters s of
      (p, s') \<Rightarrow>
        p = length (promises s) \<and>
        promises s' = promises s @ [Rejected (Exn e)] \<and>
        socket s' = socket s \<and>
        callbacks s' = callbacks s @ [Callback p])"
  by (simp add: command_def Let_def reject_def nth_append)

theorem malformed_command_rejected_unwritten_witness:
  "(case command [PStr ''SET'', POther] (initial ''u'' plain_options) of
      (p, s') \<Rightarrow>
        p = 0 \<and> promises s' = [Rejected (Exn UsageError)] \<and>
        socket s' = socket (initial ''u'' plain_options) \<and>
        callbacks s' = [Callback p])"
proof -
  have e: "encode [PStr ''SET'', POther] = Inl UsageError"
    by (simp add: encode_def)
  show ?thesis
    using malformed_command_rejected_unwritten [OF e, of "initial ''u'' plain_options"]
    by (simp split: prod.splits)
qed

section \<open>The request frame\<close>

lemma append_bulks_concat:
  "append_bulks request ps = request @ concat (map (\<lambda>p. bulk (param_text p)) ps)"
  by (induction ps arbitrary: request) simp_all

lemma encode_request_frame:
  "list_all well_typed ps \<Longrightarrow> encode ps = Inr (request_frame (map param_text ps))"
  by (simp add: encode_def append_bulks_concat request_frame_def bulk_def comp_def)

text \<open>C7. For arguments that are strings or integers, the encoder's result is the request
  frame of the wire format: the array header with the argument count, then one length-prefixed
  bulk string per argument in order, a string argument as its bytes and an integer argument as
  its decimal text (which reads back as the integer); \<^verbatim>\<open>command\<close> writes exactly this frame to
  the socket. Encoding SET, "k", "v" gives \<^verbatim>\<open>*3\r\n$3\r\nSET\r\n$1\r\nk\r\n$1\r\nv\r\n\<close>.\<close>

theorem command_wire_format:
  "(list_all well_typed ps \<longrightarrow>
      encode ps = Inr (request_frame (map param_text ps)) \<and>
      written (socket (snd (command ps s))) = written (socket s) @ [request_frame (map param_text ps)]) \<and>
   param_text (PStr str) = str \<and>
   param_text (PNum n) = show_int n \<and> parse_int (show_int n) = Some n \<and>
   encode [PStr ''SET'', PStr ''k'', PStr ''v''] =
     Inr (''*3'' @ CRLF @ ''$3'' @ CRLF @ ''SET'' @ CRLF @ ''$1'' @ CRLF @ ''k'' @ CRLF @
          ''$1'' @ CRLF @ ''v'' @ CRLF)"
proof -
  have "encode [PStr ''SET'', PStr ''k'', PStr ''v''] =
     Inr (''*3'' @ CRLF @ ''$3'' @ CRLF @ ''SET'' @ CRLF @ ''$1'' @ CRLF @ ''k'' @ CRLF @
          ''$1'' @ CRLF @ ''v'' @ CRLF)"
    by code_simp
  then show ?thesis
    by (simp add: encode_request_frame parse_int_show_int)
qed

lemma request_frame_INCRBY:
  "request_frame (map param_text [PStr ''INCRBY'', PStr ''n'', PNum (- 42)]) =
     ''*3'' @ CRLF @ ''$6'' @ CRLF @ ''INCRBY'' @ CRLF @ ''$1'' @ CRLF @ ''n'' @ CRLF @
     ''$3'' @ CRLF @ ''-42'' @ CRLF"
  by code_simp

theorem command_wire_format_witness:
  "encode [PStr ''INCRBY'', PStr ''n'', PNum (- 42)] =
     Inr (''*3'' @ CRLF @ ''$6'' @ CRLF @ ''INCRBY'' @ CRLF @ ''$1'' @ CRLF @ ''n'' @ CRLF @
          ''$3'' @ CRLF @ ''-42'' @ CRLF) \<and>
   written (socket (snd (command [PStr ''INCRBY'', PStr ''n'', PNum (- 42)]
                           (initial ''u'' plain_options)))) =
     [''*3'' @ CRLF @ ''$6'' @ CRLF @ ''INCRBY'' @ CRLF @ ''$1'' @ CRLF @ ''n'' @ CRLF @
      ''$3'' @ CRLF @ ''-42'' @ CRLF]"
proof -
  have wt: "list_all well_typed [PStr ''INCRBY'', PStr ''n'', PNum (- 42)]"
    by simp
  have i: "written (socket (initial ''u'' plain_options)) = []"
    by simp
  show ?thesis
    using command_wire_format [of "[PStr ''INCRBY'', PStr ''n'', PNum (- 42)]"
        "initial ''u'' plain_options"] wt
    unfolding request_frame_INCRBY i by simp
qed

section \<open>Authentication at construction\<close>

lemma deliver_frame [simp]:
  "socket (outcome (deliver ms s)) = socket s"
  "auth_await (outcome (deliver ms s)) = auth_await s"
  "length (promises (outcome (deliver ms s))) = length (promises s)"
  by (induction ms arbitrary: s; simp split: list.splits)+

lemma socket_on_data_frame [simp]:
  "written (socket (outcome (socket_on_data data s))) = written (socket s)"
  "auth_await (outcome (socket_on_data data s)) = auth_await s"
  "length (promises (outcome (socket_on_data data s))) = length (promises s)"
  by (simp_all add: socket_on_data_unfold split: sum.splits prod.splits)

lemma final_state_add_handle [simp]: "final_state (add_handle p r) = final_state r"
  by (cases "(p, r)" rule: add_handle.cases) simp_all

lemma run_written_grows:
  "\<exists>ws. written (socket (final_state (run es s))) = written (socket s) @ ws"
proof (induction es arbitrary: s)
  case Nil
  show ?case by simp
next
  case (Cons e es)
  show ?case
  proof (cases e)
    case (Issue ps)
    from Cons [of "auth_resume (snd (command ps s))"]
    show ?thesis using Issue by (auto simp: run_Issue simp del: run.simps(2))
  next
    case (Receive data)
    show ?thesis
    proof (cases "socket_on_data data s")
      case (Returned s')
      then have "written (socket s') = written (socket s)"
        using socket_on_data_frame(1) [of data s] by simp
      with Cons [of "auth_resume s'"] show ?thesis using Receive Returned by simp
    next
      case (Threw x s')
      then have "written (socket s') = written (socket s)"
        using socket_on_data_frame(1) [of data s] by simp
      then show ?thesis using Receive Threw by simp
    qed
  next
    case Connect
    from Cons [of "auth_resume (socket_on_connect s)"] show ?thesis using Connect by simp
  next
    case Timeout
    from Cons [of "auth_resume (socket_on_timeout s)"] show ?thesis using Timeout by simp
  next
    case (TransportError err)
    from Cons [of "auth_resume (socket_on_error err s)"] show ?thesis
      using TransportError by simp
  next
    case (Closed b)
    from Cons [of "auth_resume (socket_on_close b s)"] show ?thesis using Closed by simp
  qed
qed

lemma auth_shape_encodes:
  "auth_shape opts = Some ps \<Longrightarrow> list_all well_typed ps"
  by (auto simp: auth_shape_def split: option.splits)

lemma constructor_auth_shape:
  "constructor uuid opts =
     (case auth_shape opts of
        None \<Rightarrow> initial uuid opts
      | Some ps \<Rightarrow> (snd (command ps (initial uuid opts)))\<lparr>auth_await := Some 0\<rparr>)"
  by (simp add: constructor_def auth_def auth_shape_def case_prod_beta
      split: option.splits)

text \<open>C8. The constructor with credentials is the initial connection followed by one ordinary
  call of \<^verbatim>\<open>command\<close>, whose promise the suspended \<^verbatim>\<open>auth\<close> awaits: \<^verbatim>\<open>AUTH\<close> with user
  name and password when both are strings, with the user name when only it is, with the
  password when only it is; without credentials it issues nothing. After construction the
  trace is that one push and write, one callback is queued, and in every later run of the
  connection the first bytes written are the AUTH frame.\<close>

theorem constructor_authenticates:
  "constructor uuid opts =
     (case auth_shape opts of
        None \<Rightarrow> initial uuid opts
      | Some ps \<Rightarrow> (snd (command ps (initial uuid opts)))\<lparr>auth_await := Some 0\<rparr>) \<and>
   (\<forall>ps. auth_shape opts = Some ps \<longrightarrow>
      encode ps = Inr (request_frame (map param_text ps)) \<and>
      trace (constructor uuid opts) =
        [QueuePush 0, SocketWrite (request_frame (map param_text ps))] \<and>
      callbacks (constructor uuid opts) = [Callback 0] \<and>
      promises (constructor uuid opts) = [Pending] \<and>
      (\<forall>es. \<exists>ws. written (socket (final_state (run es (constructor uuid opts)))) =
                     request_frame (map param_text ps) # ws))"
proof (intro conjI allI impI)
  show c: "constructor uuid opts =
     (case auth_shape opts of
        None \<Rightarrow> initial uuid opts
      | Some ps \<Rightarrow> (snd (command ps (initial uuid opts)))\<lparr>auth_await := Some 0\<rparr>)"
    by (rule constructor_auth_shape)
  fix ps
  assume a: "auth_shape opts = Some ps"
  let ?bytes = "request_frame (map param_text ps)"
  show e: "encode ps = Inr ?bytes"
    using a by (simp add: encode_request_frame auth_shape_encodes)
  show "trace (constructor uuid opts) = [QueuePush 0, SocketWrite ?bytes]"
    by (simp add: c a e)
  show "callbacks (constructor uuid opts) = [Callback 0]"
    by (simp add: c a)
  show "promises (constructor uuid opts) = [Pending]"
    by (simp add: c a e)
  have w: "written (socket (constructor uuid opts)) = [?bytes]"
    by (simp add: c a e)
  fix es
  show "\<exists>ws. written (socket (final_state (run es (constructor uuid opts)))) = ?bytes # ws"
    using run_written_grows [of es "constructor uuid opts"] by (simp add: w)
qed

lemma auth_frames:
  "request_frame [''AUTH'', ''alice'', ''pw''] =
     ''*3'' @ CRLF @ ''$4'' @ CRLF @ ''AUTH'' @ CRLF @ ''$5'' @ CRLF @ ''alice'' @ CRLF @
     ''$2'' @ CRLF @ ''pw'' @ CRLF"
  "request_frame [''AUTH'', ''alice''] =
     ''*2'' @ CRLF @ ''$4'' @ CRLF @ ''AUTH'' @ CRLF @ ''$5'' @ CRLF @ ''alice'' @ CRLF"
  "request_frame [''AUTH'', ''pw''] =
     ''*2'' @ CRLF @ ''$4'' @ CRLF @ ''AUTH'' @ CRLF @ ''$2'' @ CRLF @ ''pw'' @ CRLF"
  by code_simp+

lemma auth_shapes:
  "auth_shape (credentials (Some u) (Some pw)) = Some [PStr ''AUTH'', PStr u, PStr pw]"
  "auth_shape (credentials (Some u) None) = Some [PStr ''AUTH'', PStr u]"
  "auth_shape (credentials None (Some pw)) = Some [PStr ''AUTH'', PStr pw]"
  "auth_shape (credentials None None) = None"
  by (simp_all add: auth_shape_def credentials_def plain_options_def)

theorem constructor_authenticates_witness:
  "trace (constructor ''u'' (credentials (Some ''alice'') (Some ''pw''))) =
     [QueuePush 0,
      SocketWrite (''*3'' @ CRLF @ ''$4'' @ CRLF @ ''AUTH'' @ CRLF @ ''$5'' @ CRLF @ ''alice'' @ CRLF @
                   ''$2'' @ CRLF @ ''pw'' @ CRLF)] \<and>
   trace (constructor ''u'' (credentials (Some ''alice'') None)) =
     [QueuePush 0,
      SocketWrite (''*2'' @ CRLF @ ''$4'' @ CRLF @ ''AUTH'' @ CRLF @ ''$5'' @ CRLF @ ''alice'' @ CRLF)] \<and>
   trace (constructor ''u'' (credentials None (Some ''pw''))) =
     [QueuePush 0,
      SocketWrite (''*2'' @ CRLF @ ''$4'' @ CRLF @ ''AUTH'' @ CRLF @ ''$2'' @ CRLF @ ''pw'' @ CRLF)] \<and>
   constructor ''u'' (credentials None None) = initial ''u'' (credentials None None) \<and>
   (\<exists>ws. written (socket (final_state
            (run [Issue [PStr ''GET'', PStr ''k'']]
               (constructor ''u'' (credentials (Some ''alice'') (Some ''pw'')))))) =
      (''*3'' @ CRLF @ ''$4'' @ CRLF @ ''AUTH'' @ CRLF @ ''$5'' @ CRLF @ ''alice'' @ CRLF @
       ''$2'' @ CRLF @ ''pw'' @ CRLF) # ws)"
proof -
  note both = constructor_authenticates [of "''u''" "credentials (Some ''alice'') (Some ''pw'')",
      THEN conjunct2, rule_format, OF auth_shapes(1)]
  note user = constructor_authenticates [of "''u''" "credentials (Some ''alice'') None",
      THEN conjunct2, rule_format, OF auth_shapes(2)]
  note pass = constructor_authenticates [of "''u''" "credentials None (Some ''pw'')",
      THEN conjunct2, rule_format, OF auth_shapes(3)]
  note none = constructor_authenticates [of "''u''" "credentials None None", THEN conjunct1]
  have 1: "trace (constructor ''u'' (credentials (Some ''alice'') (Some ''pw''))) =
     [QueuePush 0,
      SocketWrite (''*3'' @ CRLF @ ''$4'' @ CRLF @ ''AUTH'' @ CRLF @ ''$5'' @ CRLF @ ''alice'' @ CRLF @
                   ''$2'' @ CRLF @ ''pw'' @ CRLF)]"
    using both by (simp add: auth_frames)
  have 2: "trace (constructor ''u'' (credentials (Some ''alice'') None)) =
     [QueuePush 0,
      SocketWrite (''*2'' @ CRLF @ ''$4'' @ CRLF @ ''AUTH'' @ CRLF @ ''$5'' @ CRLF @ ''alice'' @ CRLF)]"
    using user by (simp add: auth_frames)
  have 3: "trace (constructor ''u'' (credentials None (Some ''pw''))) =
     [QueuePush 0,
      SocketWrite (''*2'' @ CRLF @ ''$4'' @ CRLF @ ''AUTH'' @ CRLF @ ''$2'' @ CRLF @ ''pw'' @ CRLF)]"
    using pass by (simp add: auth_frames)
  have 4: "constructor ''u'' (credentials None None) = initial ''u'' (credentials None None)"
    using none by (simp add: auth_shapes)
  have "\<exists>ws. written (socket (final_state
            (run [Issue [PStr ''GET'', PStr ''k'']]
               (constructor ''u'' (credentials (Some ''alice'') (Some ''pw'')))))) =
      request_frame (map param_text [PStr ''AUTH'', PStr ''alice'', PStr ''pw'']) # ws"
    using both by blast
  then have 5: "\<exists>ws. written (socket (final_state
            (run [Issue [PStr ''GET'', PStr ''k'']]
               (constructor ''u'' (credentials (Some ''alice'') (Some ''pw'')))))) =
      (''*3'' @ CRLF @ ''$4'' @ CRLF @ ''AUTH'' @ CRLF @ ''$5'' @ CRLF @ ''alice'' @ CRLF @
       ''$2'' @ CRLF @ ''pw'' @ CRLF) # ws"
    by (simp add: auth_frames del: run.simps)
  from 1 2 3 4 5 show ?thesis by (intro conjI)
qed

section \<open>Pairing replies with commands\<close>













end
